theory Spec2Isabelle
  imports Complex_Main "HOL-Library.Word"
begin

section \<open>Bytes, errors and element types\<close>

text \<open>
  The module \<^verbatim>\<open>tekscope/parse.py\<close> turns the raw replies of the oscilloscope into
  numbers. Its three functions take a Python \<^verbatim>\<open>bytes\<close> object, modelled as a list
  of 8-bit words. An exception is a value \<open>Inl e\<close> of the result type, a returned
  value is \<open>Inr v\<close>.
\<close>

type_synonym byte = "8 word"
type_synonym bytes = "byte list"

definition ascii :: "string \<Rightarrow> bytes" where
  "ascii s = map of_char s"

text \<open>
  All the exceptions the three functions can raise come from the library calls they
  make. A malformed input raises Python's \<^verbatim>\<open>ValueError\<close> (the specification calls
  this class of failure a format error); the payload records which call raised it and
  the text its message quotes:
  \<^item> \<open>Buffer_size\<close>: \<^verbatim>\<open>np.frombuffer\<close>, "buffer size must be a multiple of element size";
  \<^item> \<open>Invalid_int tok\<close>: \<^verbatim>\<open>int\<close>, "invalid literal for int() with base 10: tok";
  \<^item> \<open>Int_digits_limit\<close>: \<^verbatim>\<open>int\<close>, "Exceeds the limit (4300 digits) for integer string
    conversion", which does not quote the text;
  \<^item> \<open>Invalid_float tok\<close>: \<^verbatim>\<open>float\<close>, "could not convert string to float: tok".
  \<^verbatim>\<open>OverflowError\<close> is raised when NumPy cannot store a Python integer in the element
  type.
\<close>

datatype message = Buffer_size | Invalid_int bytes | Int_digits_limit | Invalid_float bytes

datatype error = ValueError message | OverflowError

text \<open>The element types the oscilloscope's curve data uses: \<^verbatim>\<open>np.int8\<close>, \<^verbatim>\<open>np.int16\<close>, \<^verbatim>\<open>np.int32\<close>.\<close>

datatype dtype = Int8 | Int16 | Int32

fun itemsize :: "dtype \<Rightarrow> nat" where
  "itemsize Int8 = 1"
| "itemsize Int16 = 2"
| "itemsize Int32 = 4"

text \<open>
  The value of an \<open>n\<close>-bit pattern \<open>u\<close> read as a two's complement number, and the
  conversion of an integer to a signed \<open>n\<close>-bit one by truncation (a C cast).
\<close>

definition twos_complement :: "nat \<Rightarrow> nat \<Rightarrow> int" where
  "twos_complement n u = (if u < 2 ^ (n - 1) then int u else int u - 2 ^ n)"

definition c_cast :: "nat \<Rightarrow> int \<Rightarrow> int" where
  "c_cast n v = twos_complement n (nat (v mod 2 ^ n))"

section \<open>\<^verbatim>\<open>parse_ribinary_seq\<close>\<close>

text \<open>
  \<^verbatim>\<open>return np.frombuffer(data, dtype=np.dtype(dtype).newbyteorder('>'))\<close>

  \<^verbatim>\<open>np.dtype(dtype)\<close> is the descriptor of the element type in the byte order of the
  machine the program runs on, which is a parameter \<open>native\<close> of the model;
  \<^verbatim>\<open>newbyteorder\<close> replaces the byte order; \<^verbatim>\<open>np.frombuffer\<close> with the default count
  and offset refuses a buffer whose size is not a multiple of the item size, and
  otherwise reads \<open>size div itemsize\<close> items, item \<open>k\<close> from the \<open>itemsize\<close> bytes at
  offset \<open>k * itemsize\<close>.
\<close>

datatype byteorder = Little | Big

record descr =
  base :: dtype
  order :: byteorder

definition np_dtype :: "byteorder \<Rightarrow> dtype \<Rightarrow> descr" where
  "np_dtype native t = \<lparr>base = t, order = native\<rparr>"

definition newbyteorder :: "byteorder \<Rightarrow> descr \<Rightarrow> descr" where
  "newbyteorder new d = d\<lparr>order := new\<rparr>"

text \<open>The unsigned number whose digits in base 256 are the bytes, the first byte the most significant.\<close>

definition be_nat :: "bytes \<Rightarrow> nat" where
  "be_nat bs = foldl (\<lambda>acc b. acc * 256 + unat b) 0 bs"

definition be_signed :: "bytes \<Rightarrow> int" where
  "be_signed bs = twos_complement (8 * length bs) (be_nat bs)"

fun getitem :: "byteorder \<Rightarrow> bytes \<Rightarrow> int" where
  "getitem Big bs = be_signed bs"
| "getitem Little bs = be_signed (rev bs)"

fun items :: "nat \<Rightarrow> nat \<Rightarrow> bytes \<Rightarrow> bytes list" where
  "items w 0 bs = []"
| "items w (Suc n) bs = take w bs # items w n (drop w bs)"

definition frombuffer :: "bytes \<Rightarrow> descr \<Rightarrow> error + int list" where
  "frombuffer data d =
     (let w = itemsize (base d) in
      if length data mod w \<noteq> 0 then Inl (ValueError Buffer_size)
      else Inr (map (getitem (order d)) (items w (length data div w) data)))"

definition parse_ribinary_seq :: "byteorder \<Rightarrow> bytes \<Rightarrow> dtype \<Rightarrow> error + int list" where
  "parse_ribinary_seq native data dt = frombuffer data (newbyteorder Big (np_dtype native dt))"

section \<open>Splitting and character classes\<close>

text \<open>
  \<^verbatim>\<open>data.split(sep)\<close> with a one-byte separator cuts the buffer at every occurrence of
  the separator and keeps empty pieces, so the result has one more element than the
  buffer has separators; the empty buffer gives one empty piece.
\<close>

definition semicolon :: byte where "semicolon = 0x3B"
definition comma :: byte where "comma = 0x2C"

fun split_from :: "byte \<Rightarrow> bytes \<Rightarrow> bytes \<Rightarrow> bytes list" where
  "split_from sep cur [] = [rev cur]"
| "split_from sep cur (c # cs) =
     (if c = sep then rev cur # split_from sep [] cs else split_from sep (c # cur) cs)"

definition bytes_split :: "byte \<Rightarrow> bytes \<Rightarrow> bytes list" where
  "bytes_split sep data = split_from sep [] data"

text \<open>
  The character classes of the interpreter's number parsers: \<^verbatim>\<open>Py_ISSPACE\<close> (space, tab,
  line feed, vertical tab, form feed, carriage return) and the decimal digits. An
  optional sign is \<^verbatim>\<open>-\<close> or \<^verbatim>\<open>+\<close>.
\<close>

definition is_space :: "byte \<Rightarrow> bool" where
  "is_space c \<longleftrightarrow> unat c = 32 \<or> (9 \<le> unat c \<and> unat c \<le> 13)"

definition is_digit :: "byte \<Rightarrow> bool" where
  "is_digit c \<longleftrightarrow> 48 \<le> unat c \<and> unat c \<le> 57"

definition digit_val :: "byte \<Rightarrow> nat" where
  "digit_val c = unat c - 48"

fun sign_of :: "bytes \<Rightarrow> bool \<times> bytes" where
  "sign_of [] = (False, [])"
| "sign_of (c # cs) =
     (if c = 0x2D then (True, cs) else if c = 0x2B then (False, cs) else (False, c # cs))"

section \<open>\<^verbatim>\<open>parse_ascii_seq\<close>\<close>

text \<open>
  \<^verbatim>\<open>return np.array(data.split(b","), dtype=dtype)\<close>

  NumPy fills an integer array from a list of \<^verbatim>\<open>bytes\<close> objects one element at a
  time, in order, and the first exception ends the call. What happens to one element
  depends on the interpreter and on the library the module runs with, which the module
  does not fix; they are the parameter \<open>rt\<close> of the model:
  \<^item> \<open>numpy_version\<close>: NumPy 1.x converts the integer to a C \<^verbatim>\<open>long\<close> and casts it to the
    element type, which keeps the low bits; NumPy 2.x refuses an integer outside the
    range of the element type with \<^verbatim>\<open>OverflowError\<close>;
  \<^item> \<open>long_bits\<close>: the width of the C \<^verbatim>\<open>long\<close> (64 on Linux and macOS, 32 on Windows); the
    conversion to it raises \<^verbatim>\<open>OverflowError\<close> when the value does not fit;
  \<^item> \<open>max_str_digits\<close>: the interpreter's limit on the digits of a literal (4300 by
    default since Python 3.11, 0 for no limit, as before 3.11).
\<close>

datatype numpy = NumPy1 | NumPy2

record runtime =
  numpy_version :: numpy
  long_bits :: nat
  max_str_digits :: nat

text \<open>
  \<^verbatim>\<open>int(token)\<close> is modelled by \<open>py_int\<close>: leading white space, an optional sign, decimal
  digits in which single underscores may stand between two digits, trailing white
  space, and nothing else; any other token raises the \<^verbatim>\<open>ValueError\<close> that quotes it.
  \<open>scan_digits\<close> is the scanning loop: \<open>us\<close> tells that the previous character was an
  underscore, \<open>n\<close> counts the digits. The digit limit is checked after the scan and
  before the trailing text is looked at; it applies to more than 640 digits only.
\<close>

fun scan_digits :: "bool \<Rightarrow> nat \<Rightarrow> nat \<Rightarrow> bytes \<Rightarrow> (nat \<times> nat \<times> bytes) option" where
  "scan_digits us acc n [] = (if us then None else Some (acc, n, []))"
| "scan_digits us acc n (c # cs) =
     (if is_digit c then scan_digits False (acc * 10 + digit_val c) (Suc n) cs
      else if c = 0x5F then (if us then None else scan_digits True acc n cs)
      else if us then None else Some (acc, n, c # cs))"

definition py_int :: "nat \<Rightarrow> bytes \<Rightarrow> error + int" where
  "py_int limit tok =
     (case sign_of (dropWhile is_space tok) of
        (neg, []) \<Rightarrow> Inl (ValueError (Invalid_int tok))
      | (neg, c # cs) \<Rightarrow>
          if is_digit c then
            (case scan_digits False 0 0 (c # cs) of
               None \<Rightarrow> Inl (ValueError (Invalid_int tok))
             | Some (v, n, rest) \<Rightarrow>
                 if 0 < limit \<and> 640 < n \<and> limit < n then Inl (ValueError Int_digits_limit)
                 else if dropWhile is_space rest = [] then Inr (if neg then - int v else int v)
                 else Inl (ValueError (Invalid_int tok)))
          else Inl (ValueError (Invalid_int tok)))"

definition PyLong_AsLong :: "nat \<Rightarrow> int \<Rightarrow> error + int" where
  "PyLong_AsLong bits v =
     (if - (2 ^ (bits - 1)) \<le> v \<and> v < 2 ^ (bits - 1) then Inr v else Inl OverflowError)"

definition store :: "runtime \<Rightarrow> dtype \<Rightarrow> int \<Rightarrow> error + int" where
  "store rt dt v =
     (case numpy_version rt of
        NumPy1 \<Rightarrow>
          (case PyLong_AsLong (long_bits rt) v of
             Inl e \<Rightarrow> Inl e
           | Inr l \<Rightarrow> Inr (c_cast (8 * itemsize dt) l))
      | NumPy2 \<Rightarrow>
          if - (2 ^ (8 * itemsize dt - 1)) \<le> v \<and> v < 2 ^ (8 * itemsize dt - 1) then Inr v
          else Inl OverflowError)"

definition setitem :: "runtime \<Rightarrow> dtype \<Rightarrow> bytes \<Rightarrow> error + int" where
  "setitem rt dt tok =
     (case py_int (max_str_digits rt) tok of
        Inl e \<Rightarrow> Inl e
      | Inr v \<Rightarrow> store rt dt v)"

fun np_array :: "(bytes \<Rightarrow> error + int) \<Rightarrow> bytes list \<Rightarrow> error + int list" where
  "np_array conv [] = Inr []"
| "np_array conv (t # ts) =
     (case conv t of
        Inl e \<Rightarrow> Inl e
      | Inr v \<Rightarrow> (case np_array conv ts of Inl e \<Rightarrow> Inl e | Inr vs \<Rightarrow> Inr (v # vs)))"

definition parse_ascii_seq :: "runtime \<Rightarrow> bytes \<Rightarrow> dtype \<Rightarrow> error + int list" where
  "parse_ascii_seq rt data dt = np_array (setitem rt dt) (bytes_split comma data)"

section \<open>\<^verbatim>\<open>parse_wfmoutpre\<close>\<close>

text \<open>
  Modelled from the spec: the class \<^verbatim>\<open>WaveformMetadata\<close> is imported from
  \<^verbatim>\<open>tekscope/waveform.py\<close>, which is not among the sources. The specification describes
  it as an immutable value object with the five numeric fields \<open>t_incr\<close>, \<open>t_zero\<close>,
  \<open>v_mult\<close>, \<open>v_off\<close> and \<open>v_zero\<close>, built from five positional arguments in this order.
  The type \<open>'f\<close> stands for Python's \<^verbatim>\<open>float\<close>.
\<close>

record 'f WaveformMetadata =
  t_incr :: 'f
  t_zero :: 'f
  v_mult :: 'f
  v_off :: 'f
  v_zero :: 'f

text \<open>
  \<^verbatim>\<open>float\<close> is the interpreter's conversion of a text to a floating-point number; it is a
  parameter \<open>conv\<close> of the model, \<open>None\<close> where \<^verbatim>\<open>float\<close> raises \<^verbatim>\<open>ValueError\<close>. The
  arguments of the constructor are evaluated from left to right, so the first field
  that \<^verbatim>\<open>float\<close> refuses decides the exception.
\<close>

definition py_float :: "(bytes \<Rightarrow> 'f option) \<Rightarrow> bytes \<Rightarrow> error + 'f" where
  "py_float conv s = (case conv s of None \<Rightarrow> Inl (ValueError (Invalid_float s)) | Some x \<Rightarrow> Inr x)"

definition parse_wfmoutpre :: "(bytes \<Rightarrow> 'f option) \<Rightarrow> bytes \<Rightarrow> error + 'f WaveformMetadata option" where
  "parse_wfmoutpre conv data =
     (let fields = bytes_split semicolon data in
      if length fields < 17 then Inr None
      else
        case py_float conv (fields ! 10) of Inl e \<Rightarrow> Inl e | Inr a \<Rightarrow>
        case py_float conv (fields ! 11) of Inl e \<Rightarrow> Inl e | Inr b \<Rightarrow>
        case py_float conv (fields ! 14) of Inl e \<Rightarrow> Inl e | Inr c \<Rightarrow>
        case py_float conv (fields ! 15) of Inl e \<Rightarrow> Inl e | Inr d \<Rightarrow>
        case py_float conv (fields ! 16) of Inl e \<Rightarrow> Inl e | Inr e \<Rightarrow>
          Inr (Some \<lparr>t_incr = a, t_zero = b, v_mult = c, v_off = d, v_zero = e\<rparr>))"

section \<open>Re-encoding a decoded sequence\<close>

text \<open>
  The module has no encoder. The round-trip law of the specification speaks of
  re-encoding "big-endian, same width"; \<open>encode_be_seq\<close> is that encoder, written from
  the specification's words: each number is reduced modulo \<open>2 ^ (8 * w)\<close> and
  written as \<open>w\<close> bytes, the most significant first.
\<close>

fun be_bytes :: "nat \<Rightarrow> nat \<Rightarrow> bytes" where
  "be_bytes 0 u = []"
| "be_bytes (Suc n) u = be_bytes n (u div 256) @ [of_nat (u mod 256)]"

definition tobytes_item :: "nat \<Rightarrow> int \<Rightarrow> bytes" where
  "tobytes_item w v = be_bytes w (nat (v mod 2 ^ (8 * w)))"

definition encode_be_seq :: "dtype \<Rightarrow> int list \<Rightarrow> bytes" where
  "encode_be_seq dt vs = concat (map (tobytes_item (itemsize dt)) vs)"

section \<open>The literals of the specification\<close>

text \<open>
  The specification calls a token a valid decimal integer literal when it is an
  optional leading sign followed by digits, with no white space.
\<close>

definition is_decimal_literal :: "bytes \<Rightarrow> bool" where
  "is_decimal_literal tok = (case sign_of tok of (neg, ds) \<Rightarrow> ds \<noteq> [] \<and> list_all is_digit ds)"

text \<open>
  The words of the claims about stored values: the representable range of the element
  type, the range of a C \<^verbatim>\<open>long\<close> of a given width, and the values the library
  stores without raising (any \<^verbatim>\<open>long\<close> under NumPy 1.x, the values in range under
  NumPy 2.x). The example runtimes are Linux with either library and Windows with
  NumPy 1.x.
\<close>

definition in_bounds :: "dtype \<Rightarrow> int \<Rightarrow> bool" where
  "in_bounds dt v \<longleftrightarrow> - (2 ^ (8 * itemsize dt - 1)) \<le> v \<and> v < 2 ^ (8 * itemsize dt - 1)"

definition fits_long :: "nat \<Rightarrow> int \<Rightarrow> bool" where
  "fits_long bits v \<longleftrightarrow> - (2 ^ (bits - 1)) \<le> v \<and> v < 2 ^ (bits - 1)"

definition storable :: "runtime \<Rightarrow> dtype \<Rightarrow> int \<Rightarrow> bool" where
  "storable rt dt v \<longleftrightarrow>
     (case numpy_version rt of NumPy1 \<Rightarrow> fits_long (long_bits rt) v | NumPy2 \<Rightarrow> in_bounds dt v)"

definition linux_numpy1 :: runtime where
  "linux_numpy1 = \<lparr>numpy_version = NumPy1, long_bits = 64, max_str_digits = 4300\<rparr>"

definition linux_numpy2 :: runtime where
  "linux_numpy2 = \<lparr>numpy_version = NumPy2, long_bits = 64, max_str_digits = 4300\<rparr>"

definition windows_numpy1 :: runtime where
  "windows_numpy1 = \<lparr>numpy_version = NumPy1, long_bits = 32, max_str_digits = 0\<rparr>"

text \<open>
  \<open>decimal_value\<close> reads a decimal or scientific literal (\<^verbatim>\<open>400.0000E-12\<close>) as the
  rational number it denotes: an optional sign, digits with an optional fraction, an
  optional exponent, white space around. \<^verbatim>\<open>float\<close> returns the binary floating-point
  number nearest to this value. It instantiates the parameter \<open>conv\<close> in the examples;
  the specification's example gives the expected values up to that rounding.
\<close>

definition strip :: "bytes \<Rightarrow> bytes" where
  "strip s = rev (dropWhile is_space (rev (dropWhile is_space s)))"

definition digits_nat :: "bytes \<Rightarrow> nat" where
  "digits_nat ds = foldl (\<lambda>a c. a * 10 + digit_val c) 0 ds"

definition fraction_of :: "bytes \<Rightarrow> bytes \<times> bytes" where
  "fraction_of s =
     (case s of
        [] \<Rightarrow> ([], [])
      | c # cs \<Rightarrow> if c = 0x2E then (takeWhile is_digit cs, dropWhile is_digit cs) else ([], s))"

definition exponent_of :: "bytes \<Rightarrow> int option" where
  "exponent_of s =
     (case s of
        [] \<Rightarrow> Some 0
      | c # cs \<Rightarrow>
          if c = 0x65 \<or> c = 0x45 then
            (case sign_of cs of
               (neg, ds) \<Rightarrow>
                 if ds \<noteq> [] \<and> list_all is_digit ds
                 then Some (if neg then - int (digits_nat ds) else int (digits_nat ds))
                 else None)
          else None)"

definition scale10 :: "rat \<Rightarrow> int \<Rightarrow> rat" where
  "scale10 m e = (if 0 \<le> e then m * 10 ^ nat e else m / 10 ^ nat (- e))"

definition decimal_value :: "bytes \<Rightarrow> rat option" where
  "decimal_value tok =
     (case sign_of (strip tok) of
        (neg, s1) \<Rightarrow>
          (case fraction_of (dropWhile is_digit s1) of
             (fp, s3) \<Rightarrow>
               if takeWhile is_digit s1 = [] \<and> fp = [] then None
               else
                 (case exponent_of s3 of
                    None \<Rightarrow> None
                  | Some e \<Rightarrow>
                      Some (scale10
                        ((if neg then - 1 else 1) * of_nat (digits_nat (takeWhile is_digit s1 @ fp)))
                        (e - int (length fp))))))"

text \<open>
  The example record of the specification (the one of the docstring of
  \<^verbatim>\<open>parse_wfmoutpre\<close>), and a record that differs from it outside the five fields read.
\<close>

definition example_preamble :: bytes where
  "example_preamble = ascii
     ''1;8;BINARY;RI;MSB;\"Ch1, DC coupling, 100.0mV/div, 400.0ns/div, 10000 points, Sample mode\";10000;Y;LINEAR;\"s\";400.0000E-12;-20.0000E-6;0;\"V\";4.0000E-3;0.0E+0;0.0E+0;TIME;ANALOG;0.0E+0;0.0E+0;0.0E+0''"

definition other_preamble :: bytes where
  "other_preamble = ascii
     ''2;16;ASCII;RP;LSB;\"Ch2\";500;Y;LINEAR;\"s\";400.0000E-12;-20.0000E-6;7;\"A\";4.0000E-3;0.0E+0;0.0E+0''"

section \<open>Properties of \<^verbatim>\<open>parse_ribinary_seq\<close>\<close>

lemma parse_ribinary_seq_eq:
  "parse_ribinary_seq native data dt =
     (if length data mod itemsize dt \<noteq> 0 then Inl (ValueError Buffer_size)
      else Inr (map be_signed (items (itemsize dt) (length data div itemsize dt) data)))"
proof -
  have "getitem Big = be_signed"
    by (rule ext) simp
  then show ?thesis
    by (simp add: parse_ribinary_seq_def frombuffer_def newbyteorder_def np_dtype_def Let_def)
qed

lemma be_nat_snoc: "be_nat (bs @ [b]) = be_nat bs * 256 + unat b"
  by (simp add: be_nat_def)

lemma be_nat_lt: "be_nat bs < 256 ^ length bs"
proof (induction bs rule: rev_induct)
  case Nil
  show ?case by (simp add: be_nat_def)
next
  case (snoc b bs)
  have b: "unat b < 256"
    using unsigned_less [of b, where ?'a = nat] by simp
  from snoc have "be_nat bs + 1 \<le> 256 ^ length bs" by simp
  then have "(be_nat bs + 1) * 256 \<le> 256 ^ length bs * 256"
    by (rule mult_le_mono1)
  with b show ?case
    by (simp add: be_nat_snoc)
qed

lemma be_bytes_be_nat: "be_bytes (length bs) (be_nat bs) = bs"
proof (induction bs rule: rev_induct)
  case Nil
  show ?case by simp
next
  case (snoc b bs)
  have b: "unat b < 256"
    using unsigned_less [of b, where ?'a = nat] by simp
  then have d: "(be_nat bs * 256 + unat b) div 256 = be_nat bs"
    by simp
  from b have m: "(be_nat bs * 256 + unat b) mod 256 = unat b"
    by simp
  show ?case
    using b by (simp add: be_nat_snoc d snoc.IH)
qed

lemma signed_mod:
  assumes "u < 2 ^ n"
  shows "nat (twos_complement n u mod 2 ^ n) = u"
proof (cases "u < 2 ^ (n - 1)")
  case True
  with assms show ?thesis
    by (simp add: twos_complement_def flip: of_nat_power of_nat_mod)
next
  case False
  have "(int u - 2 ^ n) mod 2 ^ n = int u mod 2 ^ n"
    by (metis minus_mod_self2)
  also have "\<dots> = int u"
    using assms by (simp flip: of_nat_power of_nat_mod)
  finally show ?thesis
    using False by (simp add: twos_complement_def)
qed

lemma tobytes_item_be_signed: "tobytes_item (length bs) (be_signed bs) = bs"
proof -
  have "be_nat bs < 2 ^ (8 * length bs)"
    using be_nat_lt [of bs] by (simp add: power_mult)
  then show ?thesis
    by (simp add: tobytes_item_def be_signed_def signed_mod be_bytes_be_nat)
qed

lemma length_items: "length (items w n bs) = n"
  by (induction n arbitrary: bs) simp_all

lemma items_nth: "i < n \<Longrightarrow> items w n bs ! i = take w (drop (i * w) bs)"
proof (induction n arbitrary: bs i)
  case 0
  then show ?case by simp
next
  case (Suc n)
  show ?case
  proof (cases i)
    case 0
    then show ?thesis by simp
  next
    case (Suc j)
    with Suc.prems have "j < n" by simp
    with Suc.IH [of j "drop w bs"] Suc show ?thesis
      by (simp add: add.commute)
  qed
qed

lemma items_full: "n * w \<le> length bs \<Longrightarrow> b \<in> set (items w n bs) \<Longrightarrow> length b = w"
proof (induction n arbitrary: bs)
  case 0
  then show ?case by simp
next
  case (Suc n)
  from Suc.prems(1) have "w \<le> length bs" and "n * w \<le> length (drop w bs)"
    by simp_all
  with Suc.IH [of "drop w bs"] Suc.prems(2) show ?case
    by auto
qed

lemma concat_items: "concat (items w n bs) = take (n * w) bs"
proof (induction n arbitrary: bs)
  case 0
  then show ?case by simp
next
  case (Suc n)
  have "take w bs @ take (n * w) (drop w bs) = take (w + n * w) bs"
    by (simp add: take_add)
  with Suc show ?case by simp
qed

lemma take_drop_nth:
  "i + w \<le> length xs \<Longrightarrow> take w (drop i xs) = map (\<lambda>k. xs ! (i + k)) [0..<w]"
  by (rule nth_equalityI) simp_all


lemma parse_ribinary_seq_roundtrip_aux:
  assumes "length data mod itemsize dt = 0"
  shows "encode_be_seq dt (map be_signed (items (itemsize dt) (length data div itemsize dt) data)) = data"
proof -
  let ?w = "itemsize dt"
  let ?n = "length data div ?w"
  from assms have full: "?n * ?w = length data"
    using div_mult_mod_eq [of "length data" ?w] by simp
  have "map (tobytes_item ?w \<circ> be_signed) (items ?w ?n data) = items ?w ?n data"
  proof (rule map_idI)
    fix b
    assume "b \<in> set (items ?w ?n data)"
    with full have "length b = ?w"
      using items_full [of ?n ?w data b] by simp
    with tobytes_item_be_signed [of b] show "(tobytes_item ?w \<circ> be_signed) b = b"
      by simp
  qed
  then have "encode_be_seq dt (map be_signed (items ?w ?n data)) = concat (items ?w ?n data)"
    by (simp add: encode_be_seq_def)
  also have "\<dots> = data"
    using full by (simp add: concat_items)
  finally show ?thesis .
qed

lemma parse_ribinary_seq_ok:
  "length data mod itemsize dt = 0 \<Longrightarrow>
   parse_ribinary_seq native data dt =
     Inr (map be_signed (items (itemsize dt) (length data div itemsize dt) data))"
  by (simp only: parse_ribinary_seq_eq simp_thms if_False)

text \<open>
  Claim C8. Decoding the empty buffer succeeds with the empty sequence, for every
  element type and on every machine.
\<close>

theorem parse_ribinary_seq_empty:
  "parse_ribinary_seq native [] dt = Inr []"
  by (simp add: parse_ribinary_seq_eq)

text \<open>
  Claim C3. A buffer whose length is not a multiple of the item size is refused:
  \<^verbatim>\<open>np.frombuffer\<close> raises \<^verbatim>\<open>ValueError\<close> ("buffer size must be a multiple of element
  size"), the format error of the specification, and no value is returned. For
  \<^verbatim>\<open>np.int8\<close> the item size is 1 and every length is a multiple of it.
\<close>

theorem parse_ribinary_seq_bad_length:
  "length data mod itemsize dt \<noteq> 0 \<Longrightarrow>
   parse_ribinary_seq native data dt = Inl (ValueError Buffer_size)"
  by (simp add: parse_ribinary_seq_eq)

theorem parse_ribinary_seq_bad_length_witness:
  "length [0x07, 0x05, 0xf8 :: byte] mod itemsize Int16 \<noteq> 0 \<and>
   parse_ribinary_seq Little [0x07, 0x05, 0xf8] Int16 = Inl (ValueError Buffer_size)"
proof -
  have h: "length [0x07, 0x05, 0xf8 :: byte] mod itemsize Int16 \<noteq> 0"
    by simp
  from h parse_ribinary_seq_bad_length [OF h, of Little] show ?thesis
    by simp
qed

text \<open>
  Claim C4. When the length of the buffer is a multiple of the item size, decoding
  succeeds, and writing the decoded numbers back as big-endian two's complement items of
  the same width gives the buffer again.
\<close>

theorem parse_ribinary_seq_roundtrip:
  "length data mod itemsize dt = 0 \<Longrightarrow>
   \<exists>vs. parse_ribinary_seq native data dt = Inr vs \<and> encode_be_seq dt vs = data"
  by (simp only: parse_ribinary_seq_ok parse_ribinary_seq_roundtrip_aux simp_thms sum.inject)

lemma items_numeral:
  "items w (numeral k) bs = take w bs # items w (pred_numeral k) (drop w bs)"
  by (simp add: numeral_eq_Suc)

lemma example_decode:
  "parse_ribinary_seq native [0x07, 0x05, 0xf8, 0xc1] Int16 = Inr [1797, - 1855]"
  by (simp add: parse_ribinary_seq_eq items_numeral be_signed_def be_nat_def twos_complement_def)

theorem parse_ribinary_seq_roundtrip_witness:
  "length [0x07, 0x05, 0xf8, 0xc1 :: byte] mod itemsize Int16 = 0 \<and>
   parse_ribinary_seq Little [0x07, 0x05, 0xf8, 0xc1] Int16 = Inr [1797, - 1855] \<and>
   encode_be_seq Int16 [1797, - 1855] = [0x07, 0x05, 0xf8, 0xc1]"
proof -
  have h: "length [0x07, 0x05, 0xf8, 0xc1 :: byte] mod itemsize Int16 = 0"
    by simp
  from parse_ribinary_seq_roundtrip [OF h, of Little]
  obtain vs where "parse_ribinary_seq Little [0x07, 0x05, 0xf8, 0xc1] Int16 = Inr vs"
    and e: "encode_be_seq Int16 vs = [0x07, 0x05, 0xf8, 0xc1]"
    by blast
  then have "vs = [1797, - 1855]"
    by (simp add: example_decode)
  with e h show ?thesis
    by (simp add: example_decode)
qed

lemma sint_word_of_nat:
  assumes "u < 2 ^ LENGTH('a)"
  shows "sint (word_of_nat u :: 'a::len word) = twos_complement LENGTH('a) u"
proof -
  define h :: int where "h = 2 ^ (LENGTH('a) - 1)"
  have p: "(2::int) ^ LENGTH('a) = 2 * h"
    unfolding h_def by (cases "LENGTH('a)") simp_all
  from assms have "int u < 2 ^ LENGTH('a)"
    by (simp flip: of_nat_power)
  with p have u: "int u < 2 * h"
    by simp
  have "sint (word_of_nat u :: 'a word) = sint (word_of_int (int u) :: 'a word)"
    by simp
  also have "\<dots> = (int u + h) mod (2 * h) - h"
    by (simp only: int_word_sint p flip: h_def)
  finally have s: "sint (word_of_nat u :: 'a word) = (int u + h) mod (2 * h) - h" .
  have l: "(u < 2 ^ (LENGTH('a) - 1)) = (int u < h)"
    by (simp add: h_def flip: of_nat_power)
  show ?thesis
  proof (cases "int u < h")
    case True
    with u have "(int u + h) mod (2 * h) = int u + h"
      by (simp add: mod_pos_pos_trivial)
    with True l s show ?thesis
      by (simp add: twos_complement_def)
  next
    case False
    have "(int u + h) mod (2 * h) = (int u + h - 2 * h) mod (2 * h)"
      by (simp only: minus_mod_self2)
    also from False u have "\<dots> = int u + h - 2 * h"
      by (simp add: mod_pos_pos_trivial)
    finally have "(int u + h) mod (2 * h) = int u - h"
      by simp
    with False l s p show ?thesis
      by (simp add: twos_complement_def)
  qed
qed

lemma be_nat_sum:
  "be_nat bs = (\<Sum>k<length bs. unat (bs ! k) * 256 ^ (length bs - 1 - k))"
proof (induction bs rule: rev_induct)
  case Nil
  show ?case by (simp add: be_nat_def)
next
  case (snoc b bs)
  have "(\<Sum>k<length bs. unat ((bs @ [b]) ! k) * 256 ^ (length bs - k))
      = (\<Sum>k<length bs. unat (bs ! k) * 256 ^ (length bs - 1 - k) * 256)"
  proof (rule sum.cong)
    fix k
    assume "k \<in> {..<length bs}"
    then have k: "k < length bs"
      by simp
    then have "length bs - k = Suc (length bs - 1 - k)"
      by simp
    with k show "unat ((bs @ [b]) ! k) * 256 ^ (length bs - k)
        = unat (bs ! k) * 256 ^ (length bs - 1 - k) * 256"
      by (simp add: nth_append)
  qed simp
  also have "\<dots> = be_nat bs * 256"
    by (simp add: snoc.IH sum_distrib_right)
  finally show ?case
    by (simp add: be_nat_snoc)
qed


lemma unat_byte: "unat (b :: byte) < 256"
  using unsigned_less [of b, where ?'a = nat] by simp

lemma sint_be_signed1: "be_signed [a] = sint a"
proof -
  have "unat a < 2 ^ LENGTH(8)"
    using unat_byte [of a] by simp
  then have "sint (word_of_nat (unat a) :: byte) = twos_complement LENGTH(8) (unat a)"
    by (rule sint_word_of_nat)
  then show ?thesis
    by (simp add: be_signed_def be_nat_def)
qed

lemma sint_be_signed2:
  "be_signed [a, b] = sint (word_of_nat (unat a * 256 + unat b) :: 16 word)"
proof -
  have "be_signed [a, b] = twos_complement LENGTH(16) (unat a * 256 + unat b)"
    by (simp add: be_signed_def be_nat_def)
  moreover have "unat a * 256 + unat b < 2 ^ LENGTH(16)"
    using unat_byte [of a] unat_byte [of b] by simp
  then have "sint (word_of_nat (unat a * 256 + unat b) :: 16 word)
      = twos_complement LENGTH(16) (unat a * 256 + unat b)"
    by (rule sint_word_of_nat)
  ultimately show ?thesis
    by (simp only:)
qed

lemma sint_be_signed4:
  "be_signed [a, b, c, d] =
     sint (word_of_nat (unat a * 16777216 + unat b * 65536 + unat c * 256 + unat d) :: 32 word)"
proof -
  have "be_nat [a, b, c, d] = unat a * 16777216 + unat b * 65536 + unat c * 256 + unat d"
    by (simp add: be_nat_def)
  then have "be_signed [a, b, c, d] =
      twos_complement LENGTH(32) (unat a * 16777216 + unat b * 65536 + unat c * 256 + unat d)"
    by (simp add: be_signed_def)
  moreover have "unat a * 16777216 + unat b * 65536 + unat c * 256 + unat d < 2 ^ LENGTH(32)"
    using unat_byte [of a] unat_byte [of b] unat_byte [of c] unat_byte [of d] by simp
  then have "sint (word_of_nat (unat a * 16777216 + unat b * 65536 + unat c * 256 + unat d) :: 32 word)
      = twos_complement LENGTH(32) (unat a * 16777216 + unat b * 65536 + unat c * 256 + unat d)"
    by (rule sint_word_of_nat)
  ultimately show ?thesis
    by (simp only:)
qed

lemma window:
  assumes "length data mod w = 0" and "i < length data div w"
  shows "take w (drop (i * w) data) = map (\<lambda>k. data ! (i * w + k)) [0..<w]"
proof -
  from assms(1) have full: "length data div w * w = length data"
    using div_mult_mod_eq [of "length data" w] by simp
  from assms(2) have "Suc i * w \<le> length data div w * w"
    by (intro mult_le_mono1) simp
  with full have "i * w + w \<le> length data"
    by simp
  then show ?thesis
    by (rule take_drop_nth)
qed

lemma parse_ribinary_seq_map:
  assumes "length data mod itemsize dt = 0"
  shows "parse_ribinary_seq native data dt =
    Inr (map (\<lambda>i. be_signed (map (\<lambda>k. data ! (i * itemsize dt + k)) [0..<itemsize dt]))
      [0..<length data div itemsize dt])"
proof -
  let ?w = "itemsize dt"
  let ?n = "length data div ?w"
  have "map be_signed (items ?w ?n data) =
      map (\<lambda>i. be_signed (map (\<lambda>k. data ! (i * ?w + k)) [0..<?w])) [0..<?n]"
  proof (rule nth_equalityI)
    show "length (map be_signed (items ?w ?n data)) =
        length (map (\<lambda>i. be_signed (map (\<lambda>k. data ! (i * ?w + k)) [0..<?w])) [0..<?n])"
      by (simp add: length_items)
  next
    fix i
    assume "i < length (map be_signed (items ?w ?n data))"
    then have i: "i < ?n"
      by (simp add: length_items)
    with assms show "map be_signed (items ?w ?n data) ! i =
        map (\<lambda>i. be_signed (map (\<lambda>k. data ! (i * ?w + k)) [0..<?w])) [0..<?n] ! i"
      by (simp add: length_items items_nth window)
  qed
  with assms show ?thesis
    by (simp only: parse_ribinary_seq_ok)
qed

lemma upt_2: "[0..<2] = [0, 1 :: nat]"
  by (simp add: numeral_2_eq_2)

lemma upt_4: "[0..<4] = [0, 1, 2, 3 :: nat]"
  by (simp add: upt_rec numeral_eq_Suc)

text \<open>
  Claim C5. On every machine the buffer is read as big-endian two's complement items:
  the descriptor's own byte order is replaced by \<^verbatim>\<open>'>'\<close> before the buffer is read, so
  a little-endian and a big-endian machine decode every buffer alike, and item \<open>i\<close> of a
  buffer of whole items is the signed value (\<open>sint\<close>) of the 8-, 16- or 32-bit word
  whose most significant byte comes first in the buffer. The buffer \<open>07 05 f8 c1\<close>
  read as 16-bit items is \<open>[1797, -1855]\<close>.
\<close>

theorem parse_ribinary_seq_big_endian:
  "parse_ribinary_seq native [0x07, 0x05, 0xf8, 0xc1] Int16 = Inr [1797, - 1855] \<and>
   parse_ribinary_seq Little data dt = parse_ribinary_seq Big data dt \<and>
   (length data mod itemsize dt = 0 \<longrightarrow>
    parse_ribinary_seq native data dt =
      Inr (map (\<lambda>i. case dt of
          Int8 \<Rightarrow> sint (data ! i)
        | Int16 \<Rightarrow> sint (word_of_nat
            (unat (data ! (2 * i)) * 256 + unat (data ! (2 * i + 1))) :: 16 word)
        | Int32 \<Rightarrow> sint (word_of_nat
            (unat (data ! (4 * i)) * 16777216 + unat (data ! (4 * i + 1)) * 65536 +
             unat (data ! (4 * i + 2)) * 256 + unat (data ! (4 * i + 3))) :: 32 word))
        [0..<length data div itemsize dt]))"
proof (intro conjI impI)
  show "parse_ribinary_seq native [0x07, 0x05, 0xf8, 0xc1] Int16 = Inr [1797, - 1855]"
    by (rule example_decode)
  show "parse_ribinary_seq Little data dt = parse_ribinary_seq Big data dt"
    by (simp only: parse_ribinary_seq_eq)
next
  assume m: "length data mod itemsize dt = 0"
  show "parse_ribinary_seq native data dt =
      Inr (map (\<lambda>i. case dt of
          Int8 \<Rightarrow> sint (data ! i)
        | Int16 \<Rightarrow> sint (word_of_nat
            (unat (data ! (2 * i)) * 256 + unat (data ! (2 * i + 1))) :: 16 word)
        | Int32 \<Rightarrow> sint (word_of_nat
            (unat (data ! (4 * i)) * 16777216 + unat (data ! (4 * i + 1)) * 65536 +
             unat (data ! (4 * i + 2)) * 256 + unat (data ! (4 * i + 3))) :: 32 word))
        [0..<length data div itemsize dt])"
  proof (cases dt)
    case Int8
    with parse_ribinary_seq_map [OF m, of native] show ?thesis
      by (simp add: sint_be_signed1)
  next
    case Int16
    with parse_ribinary_seq_map [OF m, of native] show ?thesis
      by (simp add: upt_2 sint_be_signed2 mult.commute)
  next
    case Int32
    with parse_ribinary_seq_map [OF m, of native] show ?thesis
      by (simp add: upt_4 sint_be_signed4 mult.commute)
  qed
qed


theorem parse_ribinary_seq_big_endian_witness:
  "length [0x07, 0x05, 0xf8, 0xc1 :: byte] mod itemsize Int16 = 0 \<and>
   parse_ribinary_seq Little [0x07, 0x05, 0xf8, 0xc1] Int16 = Inr [1797, - 1855] \<and>
   length [0x00, 0x00, 0x00, 0x01, 0xff, 0xff, 0xff, 0xfe :: byte] mod itemsize Int32 = 0 \<and>
   parse_ribinary_seq Little [0x00, 0x00, 0x00, 0x01, 0xff, 0xff, 0xff, 0xfe] Int32 = Inr [1, - 2] \<and>
   length [0x7f, 0x80 :: byte] mod itemsize Int8 = 0 \<and>
   parse_ribinary_seq Little [0x7f, 0x80] Int8 = Inr [127, - 128]"
proof -
  have a: "length [0x07, 0x05, 0xf8, 0xc1 :: byte] mod itemsize Int16 = 0"
    and b: "length [0x00, 0x00, 0x00, 0x01, 0xff, 0xff, 0xff, 0xfe :: byte] mod itemsize Int32 = 0"
    and c: "length [0x7f, 0x80 :: byte] mod itemsize Int8 = 0"
    by simp_all
  note general = parse_ribinary_seq_big_endian [THEN conjunct2, THEN conjunct2, rule_format]
  from general [OF a, where native = Little]
  have "parse_ribinary_seq Little [0x07, 0x05, 0xf8, 0xc1] Int16 = Inr [1797, - 1855]"
    by (simp add: upt_2)
  moreover from general [OF b, where native = Little]
  have "parse_ribinary_seq Little [0x00, 0x00, 0x00, 0x01, 0xff, 0xff, 0xff, 0xfe] Int32 =
      Inr [1, - 2]"
    by (simp add: upt_2)
  moreover from general [OF c, where native = Little]
  have "parse_ribinary_seq Little [0x7f, 0x80] Int8 = Inr [127, - 128]"
    by (simp add: upt_2)
  ultimately show ?thesis
    using a b c by (intro conjI)
qed

text \<open>
  Claim C10. When the length \<open>n\<close> of the buffer is a multiple of the item size \<open>w\<close>, the
  result has \<open>n div w\<close> elements, and element \<open>i\<close> is the number the bytes at positions
  \<open>i * w\<close>, ..., \<open>i * w + w - 1\<close> denote: byte \<open>k\<close> of the item has the weight
  \<open>256 ^ (w - 1 - k)\<close>, and a sum of \<open>2 ^ (8 * w - 1)\<close> or more stands for the negative
  number \<open>2 ^ (8 * w)\<close> below it.
\<close>

theorem parse_ribinary_seq_items:
  assumes "length data mod itemsize dt = 0"
  shows "\<exists>vs. parse_ribinary_seq native data dt = Inr vs \<and>
           length vs = length data div itemsize dt \<and>
           (\<forall>i < length vs.
              vs ! i =
                (let w = itemsize dt;
                     u = (\<Sum>k<w. unat (data ! (i * w + k)) * 256 ^ (w - 1 - k))
                 in if u < 2 ^ (8 * w - 1) then int u else int u - 2 ^ (8 * w)))"
proof -
  let ?w = "itemsize dt"
  let ?n = "length data div ?w"
  let ?win = "\<lambda>i. map (\<lambda>k. data ! (i * ?w + k)) [0..<?w]"
  let ?u = "\<lambda>i. \<Sum>k<?w. unat (data ! (i * ?w + k)) * 256 ^ (?w - 1 - k)"
  let ?vs = "map (\<lambda>i. be_signed (?win i)) [0..<?n]"
  have u: "be_nat (?win i) = ?u i" for i
    by (simp add: be_nat_sum)
  have "be_signed (?win i) = (if ?u i < 2 ^ (8 * ?w - 1) then int (?u i) else int (?u i) - 2 ^ (8 * ?w))"
    for i
    unfolding be_signed_def twos_complement_def u by simp
  then have "\<forall>i < length ?vs. ?vs ! i =
      (let w = ?w; u = (\<Sum>k<w. unat (data ! (i * w + k)) * 256 ^ (w - 1 - k))
       in if u < 2 ^ (8 * w - 1) then int u else int u - 2 ^ (8 * w))"
    by (simp add: Let_def)
  moreover have "length ?vs = ?n"
    by simp
  moreover from assms have "parse_ribinary_seq native data dt = Inr ?vs"
    by (rule parse_ribinary_seq_map)
  ultimately show ?thesis
    by blast
qed

theorem parse_ribinary_seq_items_witness:
  "length [0x07, 0x05, 0xf8, 0xc1 :: byte] mod itemsize Int16 = 0 \<and>
   parse_ribinary_seq Big [0x07, 0x05, 0xf8, 0xc1] Int16 = Inr [1797, - 1855]"
proof -
  let ?data = "[0x07, 0x05, 0xf8, 0xc1 :: byte]"
  have h: "length ?data mod itemsize Int16 = 0"
    by simp
  from parse_ribinary_seq_items [OF h, of Big]
  obtain vs where p: "parse_ribinary_seq Big ?data Int16 = Inr vs"
    and l: "length vs = length ?data div itemsize Int16"
    and n: "\<forall>i < length vs. vs ! i =
        (let w = itemsize Int16;
             u = (\<Sum>k<w. unat (?data ! (i * w + k)) * 256 ^ (w - 1 - k))
         in if u < 2 ^ (8 * w - 1) then int u else int u - 2 ^ (8 * w))"
    by blast
  from l have l2: "length vs = 2"
    by simp
  have s: "{..<2::nat} = {0, 1}"
    by auto
  from n l2 have "vs ! 0 = 1797" and "vs ! 1 = - 1855"
    by (simp_all add: Let_def s)
  with l2 have "vs = [1797, - 1855]"
    by (intro nth_equalityI) (auto simp: less_Suc_eq numeral_2_eq_2)
  with h p show ?thesis
    by simp
qed

section \<open>Properties of \<^verbatim>\<open>parse_wfmoutpre\<close>\<close>

lemmas text_eval =
  ascii_def bytes_split_def semicolon_def comma_def is_space_def is_digit_def digit_val_def

lemma example_fields:
  "bytes_split semicolon example_preamble =
     map ascii [''1'', ''8'', ''BINARY'', ''RI'', ''MSB'',
       ''\"Ch1, DC coupling, 100.0mV/div, 400.0ns/div, 10000 points, Sample mode\"'',
       ''10000'', ''Y'', ''LINEAR'', ''\"s\"'', ''400.0000E-12'', ''-20.0000E-6'', ''0'', ''\"V\"'',
       ''4.0000E-3'', ''0.0E+0'', ''0.0E+0'', ''TIME'', ''ANALOG'', ''0.0E+0'', ''0.0E+0'', ''0.0E+0'']"
  by (simp add: example_preamble_def text_eval)

lemmas float_eval =
  decimal_value_def strip_def fraction_of_def exponent_of_def scale10_def digits_nat_def

lemma example_values:
  "decimal_value (ascii ''400.0000E-12'') = Some (400 / 10 ^ 12)"
  "decimal_value (ascii ''-20.0000E-6'') = Some (- 20 / 10 ^ 6)"
  "decimal_value (ascii ''4.0000E-3'') = Some (4 / 10 ^ 3)"
  "decimal_value (ascii ''0.0E+0'') = Some 0"
  by (simp_all add: float_eval text_eval)

text \<open>
  Claim C2. When the buffer splits into fewer than 17 fields the function returns
  \<^verbatim>\<open>None\<close>: no exception is raised, no field is converted and no
  \<^verbatim>\<open>WaveformMetadata\<close> object is built.
\<close>

theorem parse_wfmoutpre_short:
  "length (bytes_split semicolon data) < 17 \<Longrightarrow> parse_wfmoutpre conv data = Inr None"
  by (simp add: parse_wfmoutpre_def)

theorem parse_wfmoutpre_short_witness:
  "length (bytes_split semicolon (ascii ''1;8;BINARY;RI'')) < 17 \<and>
   parse_wfmoutpre decimal_value (ascii ''1;8;BINARY;RI'') = Inr None"
proof -
  have h: "length (bytes_split semicolon (ascii ''1;8;BINARY;RI'')) < 17"
    by (simp add: text_eval)
  from h parse_wfmoutpre_short [OF h, of decimal_value] show ?thesis
    by (rule conjI)
qed

text \<open>
  Claim C1. When the buffer splits into at least 17 fields and \<^verbatim>\<open>float\<close> accepts the
  fields 10, 11, 14, 15 and 16, the function returns the \<^verbatim>\<open>WaveformMetadata\<close> whose
  \<open>t_incr\<close>, \<open>t_zero\<close>, \<open>v_mult\<close>, \<open>v_off\<close> and \<open>v_zero\<close> are the values of these
  fields, in this order. On the specification's example record, with the literals read as
  the numbers they denote, this gives \<open>t_incr = 400e-12\<close>, \<open>t_zero = -20e-6\<close>,
  \<open>v_mult = 4e-3\<close>, \<open>v_off = 0\<close> and \<open>v_zero = 0\<close>.
\<close>

theorem parse_wfmoutpre_fields:
  assumes "17 \<le> length (bytes_split semicolon data)"
    and "conv (bytes_split semicolon data ! 10) = Some a"
    and "conv (bytes_split semicolon data ! 11) = Some b"
    and "conv (bytes_split semicolon data ! 14) = Some c"
    and "conv (bytes_split semicolon data ! 15) = Some d"
    and "conv (bytes_split semicolon data ! 16) = Some e"
  shows "parse_wfmoutpre conv data =
    Inr (Some \<lparr>t_incr = a, t_zero = b, v_mult = c, v_off = d, v_zero = e\<rparr>)"
  using assms by (simp add: parse_wfmoutpre_def py_float_def Let_def)


theorem parse_wfmoutpre_fields_witness:
  "17 \<le> length (bytes_split semicolon example_preamble) \<and>
   decimal_value (bytes_split semicolon example_preamble ! 10) = Some (400 / 10 ^ 12) \<and>
   decimal_value (bytes_split semicolon example_preamble ! 11) = Some (- 20 / 10 ^ 6) \<and>
   decimal_value (bytes_split semicolon example_preamble ! 14) = Some (4 / 10 ^ 3) \<and>
   decimal_value (bytes_split semicolon example_preamble ! 15) = Some 0 \<and>
   decimal_value (bytes_split semicolon example_preamble ! 16) = Some 0 \<and>
   parse_wfmoutpre decimal_value example_preamble =
     Inr (Some \<lparr>t_incr = 400 / 10 ^ 12, t_zero = - 20 / 10 ^ 6, v_mult = 4 / 10 ^ 3,
       v_off = 0, v_zero = 0\<rparr>)"
proof -
  let ?fs = "bytes_split semicolon example_preamble"
  have n: "17 \<le> length ?fs"
    by (simp add: example_fields)
  have a: "decimal_value (?fs ! 10) = Some (400 / 10 ^ 12)"
    by (simp add: example_fields example_values)
  have b: "decimal_value (?fs ! 11) = Some (- 20 / 10 ^ 6)"
    by (simp add: example_fields example_values)
  have c: "decimal_value (?fs ! 14) = Some (4 / 10 ^ 3)"
    by (simp add: example_fields example_values)
  have d: "decimal_value (?fs ! 15) = Some 0"
    by (simp add: example_fields example_values)
  have e: "decimal_value (?fs ! 16) = Some 0"
    by (simp add: example_fields example_values)
  from n a b c d e parse_wfmoutpre_fields [OF n a b c d e] show ?thesis
    by (intro conjI)
qed

text \<open>
  Claim C9. Two buffers that both split into at least 17 fields and have the same
  fields 10, 11, 14, 15 and 16 give the same result (the same metadata, or the same
  exception): no other field, and no field beyond the seventeenth, is looked at.
\<close>

theorem parse_wfmoutpre_ignores_other_fields:
  assumes "17 \<le> length (bytes_split semicolon data)"
    and "17 \<le> length (bytes_split semicolon data')"
    and "bytes_split semicolon data ! 10 = bytes_split semicolon data' ! 10"
    and "bytes_split semicolon data ! 11 = bytes_split semicolon data' ! 11"
    and "bytes_split semicolon data ! 14 = bytes_split semicolon data' ! 14"
    and "bytes_split semicolon data ! 15 = bytes_split semicolon data' ! 15"
    and "bytes_split semicolon data ! 16 = bytes_split semicolon data' ! 16"
  shows "parse_wfmoutpre conv data = parse_wfmoutpre conv data'"
  using assms by (simp add: parse_wfmoutpre_def Let_def cong: sum.case_cong)


lemma other_fields:
  "bytes_split semicolon other_preamble =
     map ascii [''2'', ''16'', ''ASCII'', ''RP'', ''LSB'', ''\"Ch2\"'', ''500'', ''Y'', ''LINEAR'',
       ''\"s\"'', ''400.0000E-12'', ''-20.0000E-6'', ''7'', ''\"A\"'', ''4.0000E-3'', ''0.0E+0'', ''0.0E+0'']"
  by (simp add: other_preamble_def text_eval)

theorem parse_wfmoutpre_ignores_other_fields_witness:
  "17 \<le> length (bytes_split semicolon example_preamble) \<and>
   17 \<le> length (bytes_split semicolon other_preamble) \<and>
   bytes_split semicolon example_preamble ! 10 = bytes_split semicolon other_preamble ! 10 \<and>
   bytes_split semicolon example_preamble ! 11 = bytes_split semicolon other_preamble ! 11 \<and>
   bytes_split semicolon example_preamble ! 14 = bytes_split semicolon other_preamble ! 14 \<and>
   bytes_split semicolon example_preamble ! 15 = bytes_split semicolon other_preamble ! 15 \<and>
   bytes_split semicolon example_preamble ! 16 = bytes_split semicolon other_preamble ! 16 \<and>
   bytes_split semicolon example_preamble ! 0 \<noteq> bytes_split semicolon other_preamble ! 0 \<and>
   parse_wfmoutpre decimal_value example_preamble = parse_wfmoutpre decimal_value other_preamble"
proof -
  let ?fs = "bytes_split semicolon example_preamble"
  let ?gs = "bytes_split semicolon other_preamble"
  have n: "17 \<le> length ?fs" and n': "17 \<le> length ?gs"
    by (simp_all add: example_fields other_fields)
  have a: "?fs ! 10 = ?gs ! 10" and b: "?fs ! 11 = ?gs ! 11" and c: "?fs ! 14 = ?gs ! 14"
    and d: "?fs ! 15 = ?gs ! 15" and e: "?fs ! 16 = ?gs ! 16"
    by (simp_all add: example_fields other_fields)
  have z: "?fs ! 0 \<noteq> ?gs ! 0"
    by (simp add: example_fields other_fields ascii_def)
  from n n' a b c d e z parse_wfmoutpre_ignores_other_fields [OF n n' a b c d e, of decimal_value]
  show ?thesis
    by (intro conjI)
qed

section \<open>Properties of \<^verbatim>\<open>parse_ascii_seq\<close>\<close>

lemmas int_eval =
  py_int_def setitem_def store_def PyLong_AsLong_def c_cast_def twos_complement_def parse_ascii_seq_def
  linux_numpy1_def linux_numpy2_def windows_numpy1_def

lemma py_int_error:
  "py_int limit tok = Inl e \<Longrightarrow> e = ValueError (Invalid_int tok) \<or> e = ValueError Int_digits_limit"
  by (auto simp: py_int_def split: prod.splits list.splits if_splits option.splits)

lemma store_storable: "store rt dt v = Inr r \<Longrightarrow> storable rt dt v"
  by (auto simp: store_def storable_def PyLong_AsLong_def fits_long_def in_bounds_def
      split: numpy.splits if_splits)

lemma store_error: "store rt dt v = Inl e \<Longrightarrow> e = OverflowError \<and> \<not> storable rt dt v"
  by (auto simp: store_def storable_def PyLong_AsLong_def fits_long_def in_bounds_def
      split: numpy.splits if_splits)

lemma np_array_first_error:
  "tok \<in> set ts \<Longrightarrow> conv tok = Inl e \<Longrightarrow>
   \<exists>pre t post e'. ts = pre @ t # post \<and> (\<forall>u \<in> set pre. \<exists>r. conv u = Inr r) \<and>
     conv t = Inl e' \<and> np_array conv ts = Inl e'"
proof (induction ts)
  case Nil
  then show ?case by simp
next
  case (Cons t ts)
  show ?case
  proof (cases "conv t")
    case (Inl e')
    then have "t # ts = [] @ t # ts \<and> (\<forall>u \<in> set []. \<exists>r. conv u = Inr r) \<and>
        conv t = Inl e' \<and> np_array conv (t # ts) = Inl e'"
      by simp
    then show ?thesis by blast
  next
    case (Inr v)
    with Cons.prems have "tok \<in> set ts"
      by auto
    with Cons.IH Cons.prems(2) obtain pre t' post e'
      where ts: "ts = pre @ t' # post" and pre: "\<forall>u \<in> set pre. \<exists>r. conv u = Inr r"
        and t': "conv t' = Inl e'" and r: "np_array conv ts = Inl e'"
      by blast
    from ts have "t # ts = (t # pre) @ t' # post"
      by simp
    moreover from pre Inr have "\<forall>u \<in> set (t # pre). \<exists>r. conv u = Inr r"
      by simp
    moreover from r Inr have "np_array conv (t # ts) = Inl e'"
      by simp
    ultimately show ?thesis
      using t' by blast
  qed
qed

lemma scan_all_digits:
  "list_all is_digit ds \<Longrightarrow>
   scan_digits False acc n ds =
     Some (foldl (\<lambda>a c. a * 10 + digit_val c) acc ds, n + length ds, [])"
  by (induction ds arbitrary: acc n) simp_all

lemma digit_not_space: "is_digit c \<Longrightarrow> \<not> is_space c"
  by (auto simp: is_digit_def is_space_def)

lemma digit_not_sign: "is_digit c \<Longrightarrow> c \<noteq> 0x2D \<and> c \<noteq> 0x2B"
  by (auto simp: is_digit_def)

lemma py_int_literal:
  assumes "is_decimal_literal tok"
    and "limit = 0 \<or> length tok \<le> limit \<or> length tok \<le> 640"
  shows "py_int limit tok =
    Inr (case sign_of tok of (neg, ds) \<Rightarrow> if neg then - int (digits_nat ds) else int (digits_nat ds))"
proof -
  obtain neg ds where s: "sign_of tok = (neg, ds)"
    by (cases "sign_of tok")
  with assms have ds: "ds \<noteq> []" "list_all is_digit ds"
    by (simp_all add: is_decimal_literal_def)
  then obtain d ds' where d: "ds = d # ds'" "is_digit d"
    by (cases ds) simp_all
  from s have len: "length ds \<le> length tok"
    by (cases tok) (auto split: if_splits)
  have ns: "dropWhile is_space tok = tok"
  proof (cases tok)
    case Nil
    then show ?thesis by simp
  next
    case (Cons c cs)
    have "\<not> is_space c"
    proof (cases "c = 0x2D \<or> c = 0x2B")
      case True
      then show ?thesis by (auto simp: is_space_def)
    next
      case False
      with Cons s have "ds = c # cs"
        by auto
      with d have "is_digit c"
        by simp
      then show ?thesis
        by (rule digit_not_space)
    qed
    with Cons show ?thesis by simp
  qed
  from ds(2) have "scan_digits False 0 0 ds = Some (digits_nat ds, length ds, [])"
    by (simp add: scan_all_digits digits_nat_def)
  moreover from assms(2) len
  have "\<not> (0 < limit \<and> 640 < length ds \<and> limit < length ds)"
    by auto
  ultimately show ?thesis
    using s ns d by (simp add: py_int_def)
qed

lemma py_int_digits_limit:
  assumes "list_all is_digit ds" and "0 < limit" and "640 < length ds" and "limit < length ds"
  shows "py_int limit ds = Inl (ValueError Int_digits_limit)"
proof -
  from assms(3) obtain d ds' where d: "ds = d # ds'"
    by (cases ds) simp_all
  with assms(1) have "is_digit d"
    by simp
  with d have "dropWhile is_space ds = ds" and "sign_of ds = (False, ds)"
    using digit_not_space [of d] digit_not_sign [of d] by simp_all
  moreover from assms(1) have "scan_digits False 0 0 ds = Some (digits_nat ds, length ds, [])"
    by (simp add: scan_all_digits digits_nat_def)
  ultimately show ?thesis
    using assms(2-4) d \<open>is_digit d\<close> by (simp add: py_int_def)
qed

lemma split_from_no_sep: "sep \<notin> set cs \<Longrightarrow> split_from sep cur cs = [rev cur @ cs]"
  by (induction cs arbitrary: cur) auto

lemma long_literal:
  "parse_ascii_seq linux_numpy2 (replicate 4301 0x31) Int32 = Inl (ValueError Int_digits_limit)"
proof -
  have "py_int 4300 (replicate 4301 0x31) = Inl (ValueError Int_digits_limit)"
    by (rule py_int_digits_limit) (simp_all add: list_all_iff is_digit_def)
  moreover have "bytes_split comma (replicate 4301 0x31) = [replicate 4301 0x31]"
    by (simp add: bytes_split_def split_from_no_sep comma_def)
  ultimately show ?thesis
    by (simp add: parse_ascii_seq_def setitem_def linux_numpy2_def)
qed

text \<open>
  Claim C6, as the code has it. A token is refused when \<^verbatim>\<open>int\<close> refuses it, and
  \<^verbatim>\<open>int\<close> accepts more than a sign and digits: white space around the number and
  single underscores between digits are allowed, so \<^verbatim>\<open>b"1, 2"\<close> decodes to \<open>[1, 2]\<close>
  (by \<open>py_int_literal\<close> a sign followed by digits is accepted, up to the digit limit).
  When \<^verbatim>\<open>int\<close> refuses some token, the call raises, and the exception is that of the
  first token \<open>t\<close> that cannot be stored, all tokens before it being integers the
  library stores: when \<^verbatim>\<open>int\<close> refuses \<open>t\<close>, its \<^verbatim>\<open>ValueError\<close>, which quotes the text of
  \<open>t\<close> or, for a literal over the digit limit, names the limit; when \<open>t\<close> is an integer
  the library cannot store, \<^verbatim>\<open>OverflowError\<close>. No exception carries a position.
\<close>

theorem parse_ascii_seq_invalid_token:
  assumes "tok \<in> set (bytes_split comma data)"
    and "py_int (max_str_digits rt) tok = Inl e"
  shows "\<exists>pre t post e'. bytes_split comma data = pre @ t # post \<and>
      (\<forall>u \<in> set pre. \<exists>v. py_int (max_str_digits rt) u = Inr v \<and> storable rt dt v) \<and>
      parse_ascii_seq rt data dt = Inl e' \<and>
      (case py_int (max_str_digits rt) t of
         Inl x \<Rightarrow> e' = x \<and> (x = ValueError (Invalid_int t) \<or> x = ValueError Int_digits_limit)
       | Inr v \<Rightarrow> \<not> storable rt dt v \<and> e' = OverflowError)"
proof -
  from assms(2) have "setitem rt dt tok = Inl e"
    by (simp add: setitem_def)
  with assms(1) obtain pre t post e'
    where s: "bytes_split comma data = pre @ t # post"
      and pre: "\<forall>u \<in> set pre. \<exists>r. setitem rt dt u = Inr r"
      and t: "setitem rt dt t = Inl e'"
      and r: "np_array (setitem rt dt) (bytes_split comma data) = Inl e'"
    using np_array_first_error [of tok "bytes_split comma data" "setitem rt dt" e] by blast
  have "\<forall>u \<in> set pre. \<exists>v. py_int (max_str_digits rt) u = Inr v \<and> storable rt dt v"
  proof
    fix u
    assume "u \<in> set pre"
    with pre obtain r where "setitem rt dt u = Inr r"
      by blast
    then show "\<exists>v. py_int (max_str_digits rt) u = Inr v \<and> storable rt dt v"
      by (auto simp: setitem_def split: sum.splits dest: store_storable)
  qed
  moreover from t have "case py_int (max_str_digits rt) t of
         Inl x \<Rightarrow> e' = x \<and> (x = ValueError (Invalid_int t) \<or> x = ValueError Int_digits_limit)
       | Inr v \<Rightarrow> \<not> storable rt dt v \<and> e' = OverflowError"
    by (auto simp: setitem_def split: sum.splits dest: store_error py_int_error)
  ultimately show ?thesis
    using s r unfolding parse_ascii_seq_def by blast
qed

theorem parse_ascii_seq_invalid_token_witness:
  "ascii ''x'' \<in> set (bytes_split comma (ascii ''1,x'')) \<and>
   py_int (max_str_digits linux_numpy2) (ascii ''x'') = Inl (ValueError (Invalid_int (ascii ''x''))) \<and>
   parse_ascii_seq linux_numpy2 (ascii ''1,x'') Int8 = Inl (ValueError (Invalid_int (ascii ''x''))) \<and>
   parse_ascii_seq linux_numpy1 (ascii ''1,x'') Int8 = Inl (ValueError (Invalid_int (ascii ''x''))) \<and>
   parse_ascii_seq linux_numpy2 (ascii ''1,x,y'') Int8 = Inl (ValueError (Invalid_int (ascii ''x''))) \<and>
   parse_ascii_seq linux_numpy2 (ascii ''300,x'') Int8 = Inl OverflowError \<and>
   parse_ascii_seq linux_numpy1 (ascii ''300,x'') Int8 = Inl (ValueError (Invalid_int (ascii ''x''))) \<and>
   parse_ascii_seq linux_numpy2 [] Int8 = Inl (ValueError (Invalid_int [])) \<and>
   parse_ascii_seq linux_numpy2 (replicate 4301 0x31) Int32 = Inl (ValueError Int_digits_limit)"
proof -
  have m: "ascii ''x'' \<in> set (bytes_split comma (ascii ''1,x''))"
    by (simp add: text_eval)
  have p: "py_int (max_str_digits linux_numpy2) (ascii ''x'') =
      Inl (ValueError (Invalid_int (ascii ''x'')))"
    by (simp add: int_eval text_eval)
  from parse_ascii_seq_invalid_token [OF m p, of Int8]
  obtain e' where "parse_ascii_seq linux_numpy2 (ascii ''1,x'') Int8 = Inl e'"
    by blast
  moreover have "parse_ascii_seq linux_numpy2 (ascii ''1,x'') Int8 =
      Inl (ValueError (Invalid_int (ascii ''x'')))"
    by (simp add: int_eval text_eval)
  moreover have "parse_ascii_seq linux_numpy1 (ascii ''1,x'') Int8 =
      Inl (ValueError (Invalid_int (ascii ''x'')))"
    by (simp add: int_eval text_eval)
  moreover have "parse_ascii_seq linux_numpy2 (ascii ''1,x,y'') Int8 =
      Inl (ValueError (Invalid_int (ascii ''x'')))"
    by (simp add: int_eval text_eval)
  moreover have "parse_ascii_seq linux_numpy2 (ascii ''300,x'') Int8 = Inl OverflowError"
    by (simp add: int_eval text_eval)
  moreover have "parse_ascii_seq linux_numpy1 (ascii ''300,x'') Int8 =
      Inl (ValueError (Invalid_int (ascii ''x'')))"
    by (simp add: int_eval text_eval)
  moreover have "parse_ascii_seq linux_numpy2 [] Int8 = Inl (ValueError (Invalid_int []))"
    by (simp add: int_eval text_eval)
  ultimately show ?thesis
    using m p long_literal by simp
qed

text \<open>
  The claim as the specification words it fails: the token \<^verbatim>\<open>" 2"\<close> is not a sign
  followed by digits, yet \<^verbatim>\<open>b"1, 2"\<close> is decoded, with either library; and the exception
  for a refused token is the same whether the token comes first or second.
\<close>

theorem parse_ascii_seq_invalid_token_counterexample:
  "\<not> is_decimal_literal (ascii '' 2'') \<and>
   ascii '' 2'' \<in> set (bytes_split comma (ascii ''1, 2'')) \<and>
   parse_ascii_seq linux_numpy1 (ascii ''1, 2'') Int8 = Inr [1, 2] \<and>
   parse_ascii_seq linux_numpy2 (ascii ''1, 2'') Int8 = Inr [1, 2] \<and>
   parse_ascii_seq windows_numpy1 (ascii ''1, 2'') Int8 = Inr [1, 2] \<and>
   parse_ascii_seq linux_numpy2 (ascii ''x,1'') Int8 = parse_ascii_seq linux_numpy2 (ascii ''1,x'') Int8"
  by (simp add: is_decimal_literal_def int_eval text_eval)














end
